theory Spec2Isabelle
  imports Complex_Main "HOL-Library.Multiset"
begin

section \<open>Times Table Turbo: scoring, fact statistics and question generation\<close>

text \<open>
  A shallow embedding of the game logic of \<^verbatim>\<open>src/script.js\<close>: \<^verbatim>\<open>computeScore\<close>,
  \<^verbatim>\<open>statKey\<close>, \<^verbatim>\<open>loadStats\<close>, \<^verbatim>\<open>updateStats\<close>, \<^verbatim>\<open>shuffle\<close> and
  \<^verbatim>\<open>generateQuestions\<close>. JavaScript numbers are modelled as \<^typ>\<open>real\<close>: the
  arithmetic is exact and the rounding of IEEE doubles is not represented. The values
  of a JavaScript number that are not real numbers (\<^verbatim>\<open>NaN\<close>, \<^verbatim>\<open>Infinity\<close> and
  \<^verbatim>\<open>-Infinity\<close>) are represented by the type \<open>jsnum\<close>, on which \<^verbatim>\<open>computeScore\<close> is
  embedded a second time, as \<open>computeScore_js\<close>.
\<close>

subsection \<open>Constants\<close>

definition TOTAL_QUESTIONS :: nat where
  "TOTAL_QUESTIONS = 15"

definition EMA_ALPHA :: real where
  "EMA_ALPHA = 0.3"

subsection \<open>The score of one attempt\<close>

text \<open>
  \<^verbatim>\<open>
  function computeScore(correct, timeSec) {
    const accScore = correct ? 100 : 0;
    let speedScore;
    if (timeSec <= 2) speedScore = 100;
    else if (timeSec >= 8) speedScore = 0;
    else speedScore = 100 - ((timeSec - 2) / 6) * 100;
    return accScore * 0.7 + speedScore * 0.3;
  }
  \<close>
\<close>

definition computeScore :: "bool \<Rightarrow> real \<Rightarrow> real" where
  "computeScore correct timeSec =
     (let accScore = (if correct then 100 else 0);
          speedScore =
            (if timeSec \<le> 2 then 100
             else if timeSec \<ge> 8 then 0
             else 100 - ((timeSec - 2) / 6) * 100)
      in accScore * 0.7 + speedScore * 0.3)"

text \<open>
  The speed sub-score as the specification words it: 100 up to two seconds, 0 from
  eight seconds on, and the straight line between the two in between.
\<close>

definition spec_speed :: "real \<Rightarrow> real" where
  "spec_speed t =
     (if t \<le> 2 then 100 else if 8 \<le> t then 0 else 100 - ((t - 2) / 6) * 100)"

definition spec_accuracy :: "bool \<Rightarrow> real" where
  "spec_accuracy correct = (if correct then 100 else 0)"

subsection \<open>The score on every JavaScript number\<close>

text \<open>
  The argument \<^verbatim>\<open>timeSec\<close> is a JavaScript number: a finite number, \<^verbatim>\<open>Infinity\<close>,
  \<^verbatim>\<open>-Infinity\<close> or \<^verbatim>\<open>NaN\<close>. The comparisons and the arithmetic of the language on
  these values: every comparison with \<^verbatim>\<open>NaN\<close> is false, every operation on \<^verbatim>\<open>NaN\<close>
  gives \<^verbatim>\<open>NaN\<close>, and so do \<^verbatim>\<open>Infinity - Infinity\<close>, \<^verbatim>\<open>0 * Infinity\<close>, \<^verbatim>\<open>0 / 0\<close> and
  \<^verbatim>\<open>Infinity / Infinity\<close>. Finite results are exact (no rounding, no overflow) and
  zero has no sign.
\<close>

datatype jsnum = Num real | PosInf | NegInf | NaN

fun js_le :: "jsnum \<Rightarrow> jsnum \<Rightarrow> bool" where
  "js_le (Num x) (Num y) = (x \<le> y)"
| "js_le NaN y = False"
| "js_le x NaN = False"
| "js_le NegInf y = True"
| "js_le x PosInf = True"
| "js_le x y = False"

definition js_ge :: "jsnum \<Rightarrow> jsnum \<Rightarrow> bool" where
  "js_ge x y = js_le y x"

fun js_neg :: "jsnum \<Rightarrow> jsnum" where
  "js_neg (Num x) = Num (- x)"
| "js_neg PosInf = NegInf"
| "js_neg NegInf = PosInf"
| "js_neg NaN = NaN"

fun js_add :: "jsnum \<Rightarrow> jsnum \<Rightarrow> jsnum" where
  "js_add (Num x) (Num y) = Num (x + y)"
| "js_add NaN y = NaN"
| "js_add x NaN = NaN"
| "js_add PosInf NegInf = NaN"
| "js_add NegInf PosInf = NaN"
| "js_add PosInf y = PosInf"
| "js_add x PosInf = PosInf"
| "js_add NegInf y = NegInf"
| "js_add x NegInf = NegInf"

definition js_sub :: "jsnum \<Rightarrow> jsnum \<Rightarrow> jsnum" where
  "js_sub x y = js_add x (js_neg y)"

text \<open>An infinity times, or divided by, a value of the given sign (positive or not).\<close>

definition signed_inf :: "bool \<Rightarrow> jsnum" where
  "signed_inf positive = (if positive then PosInf else NegInf)"

fun js_mul :: "jsnum \<Rightarrow> jsnum \<Rightarrow> jsnum" where
  "js_mul (Num x) (Num y) = Num (x * y)"
| "js_mul NaN y = NaN"
| "js_mul x NaN = NaN"
| "js_mul (Num x) PosInf = (if x = 0 then NaN else signed_inf (0 < x))"
| "js_mul (Num x) NegInf = (if x = 0 then NaN else signed_inf (x < 0))"
| "js_mul PosInf (Num y) = (if y = 0 then NaN else signed_inf (0 < y))"
| "js_mul NegInf (Num y) = (if y = 0 then NaN else signed_inf (y < 0))"
| "js_mul PosInf PosInf = PosInf"
| "js_mul PosInf NegInf = NegInf"
| "js_mul NegInf PosInf = NegInf"
| "js_mul NegInf NegInf = PosInf"

fun js_div :: "jsnum \<Rightarrow> jsnum \<Rightarrow> jsnum" where
  "js_div (Num x) (Num y) =
     (if y \<noteq> 0 then Num (x / y) else if x = 0 then NaN else signed_inf (0 < x))"
| "js_div NaN y = NaN"
| "js_div x NaN = NaN"
| "js_div (Num x) PosInf = Num 0"
| "js_div (Num x) NegInf = Num 0"
| "js_div PosInf (Num y) = signed_inf (0 \<le> y)"
| "js_div NegInf (Num y) = signed_inf (y < 0)"
| "js_div x y = NaN"

text \<open>
  \<^verbatim>\<open>computeScore\<close> again, line by line, with \<^verbatim>\<open>timeSec\<close> any JavaScript number. On a
  finite time it is \<open>computeScore\<close> (lemma \<open>computeScore_js_Num\<close> below).
\<close>

definition computeScore_js :: "bool \<Rightarrow> jsnum \<Rightarrow> jsnum" where
  "computeScore_js correct timeSec =
     (let accScore = (if correct then Num 100 else Num 0);
          speedScore =
            (if js_le timeSec (Num 2) then Num 100
             else if js_ge timeSec (Num 8) then Num 0
             else js_sub (Num 100) (js_mul (js_div (js_sub timeSec (Num 2)) (Num 6)) (Num 100)))
      in js_add (js_mul accScore (Num 0.7)) (js_mul speedScore (Num 0.3)))"

text \<open>A score in range: a finite number from 0 to 100.\<close>

fun in_score_range :: "jsnum \<Rightarrow> bool" where
  "in_score_range (Num s) = (0 \<le> s \<and> s \<le> 100)"
| "in_score_range x = False"

subsection \<open>Fact keys\<close>

text \<open>
  \<^verbatim>\<open>function statKey(a, b) { return `${a}_${b}`; }\<close>

  The operands are the integers of a question. The template literal prints each in
  decimal, with a leading minus sign for a negative one (JavaScript's number-to-string
  conversion on integers below \<open>10^21\<close> in magnitude).
\<close>

definition digit_char :: "nat \<Rightarrow> char" where
  "digit_char d = ''0123456789'' ! d"

fun digits :: "nat \<Rightarrow> string" where
  "digits n = (if n < 10 then [digit_char n] else digits (n div 10) @ [digit_char (n mod 10)])"

declare digits.simps [simp del]

definition dec :: "int \<Rightarrow> string" where
  "dec i = (if i < 0 then CHR ''-'' # digits (nat (- i)) else digits (nat i))"

definition statKey :: "int \<Rightarrow> int \<Rightarrow> string" where
  "statKey a b = dec a @ ''_'' @ dec b"

text \<open>Reading a digit string back, used to show that printing loses nothing.\<close>

definition digit_val :: "char \<Rightarrow> nat" where
  "digit_val c = of_char c - 48"

definition str_val :: "string \<Rightarrow> nat" where
  "str_val s = foldl (\<lambda>acc c. 10 * acc + digit_val c) 0 s"

subsection \<open>The persisted statistics\<close>

text \<open>
  A record of the table is \<^verbatim>\<open>{ confidence, attempts }\<close>; both fields are JavaScript
  numbers. The table maps a key string to its record.
\<close>

record fact_record =
  confidence :: real
  attempts :: real

type_synonym stats_table = "string \<rightharpoonup> fact_record"

text \<open>
  \<^verbatim>\<open>
  function loadStats() {
    try {
      const raw = localStorage.getItem(STORAGE_KEY);
      if (raw) return JSON.parse(raw);
    } catch (_) { /* corrupted - start fresh */ }
    return {};
  }
  \<close>
  \<^verbatim>\<open>localStorage.getItem\<close> and \<^verbatim>\<open>JSON.parse\<close> belong to the browser. The model takes
  the outcome of the first (an exception, \<^verbatim>\<open>null\<close> for a missing entry, or the stored
  text) and the second as a function from text to its outcome (an exception or the
  parsed value). An empty text is falsy, as \<^verbatim>\<open>null\<close> is.
\<close>

datatype jsval =
    JNull
  | JBool bool
  | JNum real
  | JStr string
  | JArr "jsval list"
  | JObj "(string \<times> jsval) list"

datatype 'a outcome = Throws | Returns 'a

definition loadStats :: "string option outcome \<Rightarrow> (string \<Rightarrow> jsval outcome) \<Rightarrow> jsval" where
  "loadStats getItem JSON_parse =
     (case getItem of
        Throws \<Rightarrow> JObj []
      | Returns None \<Rightarrow> JObj []
      | Returns (Some raw) \<Rightarrow>
          if raw \<noteq> [] then
            (case JSON_parse raw of Throws \<Rightarrow> JObj [] | Returns v \<Rightarrow> v)
          else JObj [])"

text \<open>
  The shape of a statistics table among the parsed values: an object every member of
  which is an object with a numeric \<^verbatim>\<open>confidence\<close> and a numeric \<^verbatim>\<open>attempts\<close>.
\<close>

fun is_fact_record :: "jsval \<Rightarrow> bool" where
  "is_fact_record (JObj fs) =
     (case (map_of fs ''confidence'', map_of fs ''attempts'') of
        (Some (JNum c), Some (JNum n)) \<Rightarrow> True
      | _ \<Rightarrow> False)"
| "is_fact_record _ = False"

fun is_stats_table :: "jsval \<Rightarrow> bool" where
  "is_stats_table (JObj kvs) = list_all (\<lambda>kv. is_fact_record (snd kv)) kvs"
| "is_stats_table _ = False"

text \<open>
  A parser for closed examples: on the two texts \<^verbatim>\<open>[1,2]\<close> and \<^verbatim>\<open>null\<close> it returns
  what \<^verbatim>\<open>JSON.parse\<close> returns on them, and on the text \<^verbatim>\<open>{oops\<close> it throws as
  \<^verbatim>\<open>JSON.parse\<close> does. It is used at these three texts only.
\<close>

definition sample_parse :: "string \<Rightarrow> jsval outcome" where
  "sample_parse raw =
     (if raw = ''[1,2]'' then Returns (JArr [JNum 1, JNum 2])
      else if raw = ''null'' then Returns JNull
      else Throws)"

text \<open>
  \<^verbatim>\<open>
  function updateStats(a, b, correct, timeSec) {
    const stats = loadStats();
    const key = statKey(a, b);
    const newScore = computeScore(correct, timeSec);
    if (stats[key]) {
      stats[key].confidence =
        stats[key].confidence * (1 - EMA_ALPHA) + newScore * EMA_ALPHA;
      stats[key].attempts += 1;
    } else {
      stats[key] = { confidence: newScore, attempts: 1 };
    }
    saveStats(stats);
  }
  \<close>
  The model passes the table explicitly: the argument \<open>stats\<close> is the table that
  \<^verbatim>\<open>loadStats()\<close> returned and the result is the table handed to \<^verbatim>\<open>saveStats\<close>, which
  replaces the stored entry by the serialised table. A record is an object, hence truthy,
  so \<^verbatim>\<open>if (stats[key])\<close> asks whether the key has a record.
\<close>

definition updateStats :: "stats_table \<Rightarrow> int \<Rightarrow> int \<Rightarrow> bool \<Rightarrow> real \<Rightarrow> stats_table" where
  "updateStats stats a b correct timeSec =
     (let key = statKey a b;
          newScore = computeScore correct timeSec
      in case stats key of
           Some r \<Rightarrow>
             stats(key \<mapsto> r\<lparr>confidence := confidence r * (1 - EMA_ALPHA) + newScore * EMA_ALPHA,
                              attempts := attempts r + 1\<rparr>)
         | None \<Rightarrow> stats(key \<mapsto> \<lparr>confidence = newScore, attempts = 1\<rparr>))"

text \<open>
  A sequence of answered questions: \<^verbatim>\<open>submitAnswer\<close> calls \<^verbatim>\<open>updateStats\<close> once per
  answer, each call starting from the table the previous one saved.
\<close>

fun updateStats_seq :: "stats_table \<Rightarrow> (int \<times> int \<times> bool \<times> real) list \<Rightarrow> stats_table" where
  "updateStats_seq stats [] = stats"
| "updateStats_seq stats ((a, b, correct, timeSec) # rest) =
     updateStats_seq (updateStats stats a b correct timeSec) rest"

text \<open>
  The invariant of a table: every record's confidence lies in \<open>[0, 100]\<close> and its
  number of attempts is an integer, at least 1.
\<close>

definition record_ok :: "fact_record \<Rightarrow> bool" where
  "record_ok r \<longleftrightarrow> 0 \<le> confidence r \<and> confidence r \<le> 100 \<and> attempts r \<in> \<int> \<and> 1 \<le> attempts r"

definition table_ok :: "stats_table \<Rightarrow> bool" where
  "table_ok stats \<longleftrightarrow> (\<forall>k r. stats k = Some r \<longrightarrow> record_ok r)"

text \<open>
  What a later table keeps of an earlier one: every record is still there, with at least
  as many attempts.
\<close>

definition records_kept :: "stats_table \<Rightarrow> stats_table \<Rightarrow> bool" where
  "records_kept old new \<longleftrightarrow>
     (\<forall>k r. old k = Some r \<longrightarrow> (\<exists>r'. new k = Some r' \<and> attempts r \<le> attempts r'))"

text \<open>A table and a sequence of answers for closed examples.\<close>

definition sample_table :: stats_table where
  "sample_table = [''3_7'' \<mapsto> \<lparr>confidence = 50, attempts = 2\<rparr>]"

definition sample_answers :: "(int \<times> int \<times> bool \<times> real) list" where
  "sample_answers = [(3, 7, True, 1), (7, 3, False, 9)]"

subsection \<open>Random numbers\<close>

text \<open>
  \<^verbatim>\<open>Math.random()\<close> returns a number that is at least 0 and less than 1. The type
  \<open>random\<close> holds these numbers. The generator takes the numbers it will be given as a
  function \<open>rnd\<close>, the \<open>k\<close>-th call of \<^verbatim>\<open>Math.random()\<close> returning \<open>rnd k\<close>, and every
  function that draws passes on the count \<open>p\<close> of the calls made so far.
\<close>

typedef random = "{r::real. 0 \<le> r \<and> r < 1}"
  morphisms random_value Abs_random
  by (rule exI [of _ 0]) simp

setup_lifting type_definition_random

text \<open>The number \<open>m / n\<close> as a random number when \<open>m < n\<close> (and 0 otherwise), for closed examples.\<close>

lift_definition random_of :: "nat \<Rightarrow> nat \<Rightarrow> random" is
  "\<lambda>m n. if m < n then real m / real n else 0"
  by simp

definition sample_rnd :: "nat \<Rightarrow> random" where
  "sample_rnd k = random_of ((5 * k + 3) mod 11) 11"

subsection \<open>Shuffling\<close>

text \<open>
  \<^verbatim>\<open>
  function shuffle(arr) {
    for (let i = arr.length - 1; i > 0; i--) {
      const j = Math.floor(Math.random() * (i + 1));
      [arr[i], arr[j]] = [arr[j], arr[i]];
    }
    return arr;
  }
  \<close>
  The array is mutated in place; the model returns the new array, with the count of
  the calls of \<^verbatim>\<open>Math.random()\<close>. The loop is \<open>shuffle_loop\<close>, with the loop variable
  \<open>i\<close> as an argument. The swap
  reads both elements before it writes: \<open>arr[i]\<close> gets the old \<open>arr[j]\<close> and then
  \<open>arr[j]\<close> the old \<open>arr[i]\<close>. On an empty array \<open>arr.length - 1\<close> is \<open>-1\<close> and the loop
  is not entered; the model starts at \<open>0 - 1 = 0\<close> on the naturals, with the same effect.
\<close>

fun shuffle_loop :: "(nat \<Rightarrow> random) \<Rightarrow> nat \<Rightarrow> nat \<Rightarrow> 'a list \<Rightarrow> 'a list \<times> nat" where
  "shuffle_loop rnd p i arr =
     (if i > 0 then
        (let j = nat \<lfloor>random_value (rnd p) * real (i + 1)\<rfloor>
         in shuffle_loop rnd (p + 1) (i - 1) (arr[i := arr ! j, j := arr ! i]))
      else (arr, p))"

declare shuffle_loop.simps [simp del]

definition shuffle :: "(nat \<Rightarrow> random) \<Rightarrow> nat \<Rightarrow> 'a list \<Rightarrow> 'a list \<times> nat" where
  "shuffle rnd p arr = shuffle_loop rnd p (length arr - 1) arr"

subsection \<open>Generating the questions of a round\<close>

text \<open>
  \<^verbatim>\<open>
  function generateQuestions(table) {
    const qs = [];
    if (table === 'mixed') {
      while (qs.length < TOTAL_QUESTIONS) {
        const a = Math.floor(Math.random() * 12) + 1;
        const b = Math.floor(Math.random() * 12) + 1;
        qs.push({ a, b });
      }
    } else {
      const n = parseInt(table, 10);
      const pool = [];
      for (let i = 1; i <= 12; i++) pool.push({ a: n, b: i });
      shuffle(pool);
      for (let i = 0; i < TOTAL_QUESTIONS; i++) {
        qs.push(pool[i % pool.length]);
      }
      shuffle(qs);
    }
    return qs.map(q => {
      if (Math.random() < 0.5) return { a: q.b, b: q.a, answer: q.a * q.b };
      return { ...q, answer: q.a * q.b };
    });
  }
  \<close>
  The argument is the \<^verbatim>\<open>data-table\<close> string of the button pressed: \<open>Mixed\<close> stands for
  the string \<^verbatim>\<open>mixed\<close> and \<open>Table n\<close> for a string that \<^verbatim>\<open>parseInt\<close> reads as the
  integer \<open>n\<close>. An entry \<^verbatim>\<open>{ a, b }\<close> of \<open>qs\<close> is a pair; a question of the result is a
  record. The fields are called \<open>q_a\<close> and \<open>q_b\<close> here, to leave \<open>a\<close> and \<open>b\<close> free for
  variables.
\<close>

datatype mode = Mixed | Table int

record question =
  q_a :: int
  q_b :: int
  answer :: int

function mixed_loop :: "(nat \<Rightarrow> random) \<Rightarrow> nat \<Rightarrow> (int \<times> int) list \<Rightarrow> (int \<times> int) list \<times> nat" where
  "mixed_loop rnd p qs =
     (if length qs < TOTAL_QUESTIONS then
        (let a = \<lfloor>random_value (rnd p) * 12\<rfloor> + 1;
             b = \<lfloor>random_value (rnd (p + 1)) * 12\<rfloor> + 1
         in mixed_loop rnd (p + 2) (qs @ [(a, b)]))
      else (qs, p))"
  by pat_completeness auto
termination
  by (relation "measure (\<lambda>(rnd, p, qs). TOTAL_QUESTIONS - length qs)") auto

declare mixed_loop.simps [simp del]

definition table_pool :: "int \<Rightarrow> (int \<times> int) list" where
  "table_pool n = map (\<lambda>i. (n, i)) [1..12]"

text \<open>The array \<open>qs\<close> when the final \<^verbatim>\<open>map\<close> starts, with the count of the calls made.\<close>

definition question_pairs :: "(nat \<Rightarrow> random) \<Rightarrow> mode \<Rightarrow> (int \<times> int) list \<times> nat" where
  "question_pairs rnd table =
     (case table of
        Mixed \<Rightarrow> mixed_loop rnd 0 []
      | Table n \<Rightarrow>
          (let (pool, p) = shuffle rnd 0 (table_pool n);
               qs = map (\<lambda>i. pool ! (i mod length pool)) [0..<TOTAL_QUESTIONS]
           in shuffle rnd p qs))"

text \<open>The final \<^verbatim>\<open>map\<close>: one call of \<^verbatim>\<open>Math.random()\<close> per entry, in order.\<close>

fun display_swap :: "(nat \<Rightarrow> random) \<Rightarrow> nat \<Rightarrow> (int \<times> int) list \<Rightarrow> question list" where
  "display_swap rnd p [] = []"
| "display_swap rnd p (q # qs) =
     (if random_value (rnd p) < 0.5
      then \<lparr>q_a = snd q, q_b = fst q, answer = fst q * snd q\<rparr>
      else \<lparr>q_a = fst q, q_b = snd q, answer = fst q * snd q\<rparr>)
     # display_swap rnd (p + 1) qs"

definition generateQuestions :: "(nat \<Rightarrow> random) \<Rightarrow> mode \<Rightarrow> question list" where
  "generateQuestions rnd table =
     (let (qs, p) = question_pairs rnd table in display_swap rnd p qs)"

text \<open>A valid mode: the mixed selector, or a table from 1 to 12.\<close>

fun valid_mode :: "mode \<Rightarrow> bool" where
  "valid_mode Mixed = True"
| "valid_mode (Table n) = (1 \<le> n \<and> n \<le> 12)"

text \<open>
  A fact without the order of its operands: the smaller operand first. The pair of a
  question entry and that of a displayed question.
\<close>

definition unordered :: "int \<times> int \<Rightarrow> int \<times> int" where
  "unordered q = (min (fst q) (snd q), max (fst q) (snd q))"

definition fact_of :: "question \<Rightarrow> int \<times> int" where
  "fact_of q = unordered (q_a q, q_b q)"

text \<open>A displayed question shows a given entry: the same operands in either order, and their product.\<close>

definition shows_entry :: "question \<Rightarrow> int \<times> int \<Rightarrow> bool" where
  "shows_entry q e \<longleftrightarrow>
     answer q = fst e * snd e \<and> answer q = q_a q * q_b q
     \<and> ((q_a q, q_b q) = e \<or> (q_a q, q_b q) = (snd e, fst e))"

text \<open>Both operands of an entry lie between 1 and 12.\<close>

definition in_range :: "int \<times> int \<Rightarrow> bool" where
  "in_range q \<longleftrightarrow> fst q \<in> {1..12} \<and> snd q \<in> {1..12}"

section \<open>Properties\<close>

subsection \<open>The score\<close>

lemma computeScore_unfold:
  "computeScore c t = 0.7 * spec_accuracy c + 0.3 * spec_speed t"
  by (simp add: computeScore_def spec_speed_def spec_accuracy_def Let_def)

lemma spec_speed_bounds: "0 \<le> spec_speed t \<and> spec_speed t \<le> 100"
  by (simp add: spec_speed_def)

lemma computeScore_bounds: "0 \<le> computeScore c t \<and> computeScore c t \<le> 100"
proof -
  have s: "0 \<le> spec_speed t" "spec_speed t \<le> 100"
    using spec_speed_bounds [of t] by simp_all
  have a: "0 \<le> spec_accuracy c" "spec_accuracy c \<le> 100"
    by (simp_all add: spec_accuracy_def)
  show ?thesis
    unfolding computeScore_unfold using s a by linarith
qed

text \<open>
  Claim C3: for every time \<open>t\<close>, the score is 0.7 times the accuracy sub-score (100
  for a correct answer, 0 otherwise) plus 0.3 times the speed sub-score, which is 100 for
  \<open>t \<le> 2\<close>, 0 for \<open>t \<ge> 8\<close> and \<open>100 - ((t - 2) / 6) * 100\<close> in between. A correct
  answer scores 100 for \<open>t \<le> 2\<close>, 70 for \<open>t \<ge> 8\<close> and 85 at \<open>t = 5\<close>; a wrong answer
  scores 0.3 times the speed sub-score.
\<close>

theorem computeScore_formula:
  "computeScore correct t = 0.7 * (if correct then 100 else 0) + 0.3 * spec_speed t
   \<and> (t \<le> 2 \<longrightarrow> spec_speed t = 100 \<and> computeScore True t = 100)
   \<and> (8 \<le> t \<longrightarrow> spec_speed t = 0 \<and> computeScore True t = 70)
   \<and> (2 < t \<and> t < 8 \<longrightarrow> spec_speed t = 100 - ((t - 2) / 6) * 100)
   \<and> computeScore True 5 = 85
   \<and> computeScore False t = 0.3 * spec_speed t"
  by (simp add: computeScore_unfold spec_accuracy_def spec_speed_def)

theorem computeScore_formula_witness:
  "(1::real) \<le> 2 \<and> computeScore True 1 = 100
   \<and> (8::real) \<le> 9 \<and> computeScore True 9 = 70
   \<and> (2::real) < 3 \<and> (3::real) < 8 \<and> spec_speed 3 = 100 - ((3 - 2) / 6) * 100"
  using computeScore_formula [of True 1] computeScore_formula [of True 9]
    computeScore_formula [of True 3]
  by simp

lemma computeScore_js_Num: "computeScore_js correct (Num t) = Num (computeScore correct t)"
  by (simp add: computeScore_js_def computeScore_def js_ge_def js_sub_def Let_def)

lemma computeScore_js_PosInf: "computeScore_js correct PosInf = Num (if correct then 70 else 0)"
  by (simp add: computeScore_js_def js_ge_def Let_def)

lemma computeScore_js_NegInf: "computeScore_js correct NegInf = Num (if correct then 100 else 30)"
  by (simp add: computeScore_js_def js_ge_def Let_def)

lemma computeScore_js_NaN: "computeScore_js correct NaN = NaN"
  by (simp add: computeScore_js_def js_ge_def js_sub_def Let_def)

text \<open>
  Claim C4, as the code has it: \<^verbatim>\<open>computeScore\<close> is a total function of its two
  arguments alone, and for every correctness flag and every time that is not \<^verbatim>\<open>NaN\<close>,
  negative, very large and infinite times included, its result is a number between 0
  and 100. On a finite time it is the value computed on the reals. At \<^verbatim>\<open>NaN\<close> neither
  clamp applies and the result is \<^verbatim>\<open>NaN\<close>.
\<close>

theorem computeScore_js_range:
  "(timeSec \<noteq> NaN \<longrightarrow> in_score_range (computeScore_js correct timeSec))
   \<and> computeScore_js correct (Num t) = Num (computeScore correct t)
   \<and> 0 \<le> computeScore correct t \<and> computeScore correct t \<le> 100
   \<and> computeScore_js correct NaN = NaN"
proof -
  have r: "timeSec \<noteq> NaN \<longrightarrow> in_score_range (computeScore_js correct timeSec)"
  proof (cases timeSec)
    case (Num x)
    then show ?thesis
      using computeScore_bounds [of correct x] by (simp add: computeScore_js_Num)
  next
    case PosInf
    then show ?thesis by (simp add: computeScore_js_PosInf)
  next
    case NegInf
    then show ?thesis by (simp add: computeScore_js_NegInf)
  next
    case NaN
    then show ?thesis by simp
  qed
  show ?thesis
    using r computeScore_bounds [of correct t]
    by (simp add: computeScore_js_Num computeScore_js_NaN)
qed

theorem computeScore_js_range_witness:
  "NegInf \<noteq> NaN \<and> in_score_range (computeScore_js False NegInf)
   \<and> PosInf \<noteq> NaN \<and> in_score_range (computeScore_js True PosInf)
   \<and> Num (- 5) \<noteq> NaN \<and> in_score_range (computeScore_js True (Num (- 5)))
   \<and> computeScore_js True (Num (- 5)) = Num 100"
proof -
  have v: "computeScore True (- 5) = 100" by (simp add: computeScore_def)
  show ?thesis
    using computeScore_js_range [of NegInf False 0] computeScore_js_range [of PosInf True 0]
      computeScore_js_range [of "Num (- 5)" True "- 5"] v
    by simp
qed

text \<open>
  At the time \<^verbatim>\<open>NaN\<close> both tests \<^verbatim>\<open>timeSec <= 2\<close> and \<^verbatim>\<open>timeSec >= 8\<close> are false, the
  interpolation runs on \<^verbatim>\<open>NaN\<close> and the score is \<^verbatim>\<open>NaN\<close>, which is not in \<open>[0, 100]\<close>.
\<close>

theorem computeScore_nan_counterexample:
  "computeScore_js True NaN = NaN \<and> \<not> in_score_range (computeScore_js True NaN)"
  by (simp add: computeScore_js_def js_ge_def js_sub_def Let_def)

subsection \<open>Fact keys are injective\<close>

lemma digit_cases: "d < 10 \<Longrightarrow> d = 0 \<or> d = 1 \<or> d = 2 \<or> d = 3 \<or> d = 4 \<or> d = 5 \<or> d = 6 \<or> d = 7 \<or> d = 8 \<or> d = (9::nat)"
  by arith

lemma digit_val_digit_char: "d < 10 \<Longrightarrow> digit_val (digit_char d) = d"
  using digit_cases [of d] by (auto simp: digit_val_def digit_char_def)

lemma digit_char_not_sep: "d < 10 \<Longrightarrow> digit_char d \<noteq> CHR ''_'' \<and> digit_char d \<noteq> CHR ''-''"
  using digit_cases [of d] by (auto simp: digit_char_def)

lemma str_val_snoc: "str_val (s @ [c]) = 10 * str_val s + digit_val c"
  by (simp add: str_val_def)

lemma str_val_digits: "str_val (digits n) = n"
proof (induction n rule: digits.induct)
  case (1 n)
  show ?case
  proof (cases "n < 10")
    case True
    then show ?thesis
      by (simp add: digits.simps [of n] str_val_def digit_val_digit_char)
  next
    case False
    then have "str_val (digits (n div 10)) = n div 10" using 1 by simp
    with False show ?thesis
      by (simp add: digits.simps [of n] str_val_snoc digit_val_digit_char)
  qed
qed

lemma digits_inj: "digits m = digits n \<Longrightarrow> m = n"
  by (metis str_val_digits)

lemma digits_chars: "c \<in> set (digits n) \<Longrightarrow> c \<noteq> CHR ''_'' \<and> c \<noteq> CHR ''-''"
proof (induction n rule: digits.induct)
  case (1 n)
  show ?case
  proof (cases "n < 10")
    case True
    with 1(2) show ?thesis
      using digit_char_not_sep [of n] by (simp add: digits.simps [of n])
  next
    case False
    with 1 show ?thesis
      using digit_char_not_sep [of "n mod 10"] by (auto simp: digits.simps [of n])
  qed
qed

lemma digits_nonempty: "digits n \<noteq> []"
  by (simp add: digits.simps [of n])

lemma dec_inj: "dec i = dec j \<Longrightarrow> i = j"
proof -
  assume e: "dec i = dec j"
  have neg: "\<And>n m. CHR ''-'' # digits n \<noteq> digits m"
    using digits_chars by (metis list.set_intros(1))
  show ?thesis
  proof (cases "i < 0")
    case True
    show ?thesis
    proof (cases "j < 0")
      case True
      with \<open>i < 0\<close> e have "nat (- i) = nat (- j)" by (simp add: dec_def digits_inj)
      with True \<open>i < 0\<close> show ?thesis by simp
    next
      case False
      with \<open>i < 0\<close> e neg show ?thesis by (simp add: dec_def)
    qed
  next
    case False
    show ?thesis
    proof (cases "j < 0")
      case True
      with False e neg [of "nat (- j)" "nat i"] show ?thesis by (simp add: dec_def)
    next
      case F: False
      with False e have "nat i = nat j" by (simp add: dec_def digits_inj)
      with False F show ?thesis by simp
    qed
  qed
qed

lemma dec_no_sep: "CHR ''_'' \<notin> set (dec i)"
  using digits_chars by (auto simp: dec_def)

lemma split_at_sep:
  "c \<notin> set xs \<Longrightarrow> c \<notin> set xs' \<Longrightarrow> xs @ c # ys = xs' @ c # ys' \<Longrightarrow> xs = xs' \<and> ys = ys'"
proof (induction xs arbitrary: xs')
  case Nil
  then show ?case by (cases xs') auto
next
  case (Cons x xs)
  then show ?case by (cases xs') auto
qed

lemma statKey_inj: "statKey a b = statKey c d \<longleftrightarrow> a = c \<and> b = d"
proof
  assume "statKey a b = statKey c d"
  then have "dec a @ CHR ''_'' # dec b = dec c @ CHR ''_'' # dec d"
    by (simp add: statKey_def)
  then have "dec a = dec c \<and> dec b = dec d"
    using split_at_sep [OF dec_no_sep dec_no_sep] by blast
  then show "a = c \<and> b = d" using dec_inj by blast
qed simp

subsection \<open>Updating the statistics\<close>

lemma updateStats_at_key:
  "updateStats stats a b c t (statKey a b) =
     (case stats (statKey a b) of
        None \<Rightarrow> Some \<lparr>confidence = computeScore c t, attempts = 1\<rparr>
      | Some r \<Rightarrow> Some \<lparr>confidence = confidence r * 0.7 + computeScore c t * 0.3,
                         attempts = attempts r + 1\<rparr>)"
  by (simp add: updateStats_def Let_def EMA_ALPHA_def split: option.split)

lemma updateStats_other: "k \<noteq> statKey a b \<Longrightarrow> updateStats stats a b c t k = stats k"
  by (simp add: updateStats_def Let_def split: option.split)

lemma dom_updateStats: "dom (updateStats stats a b c t) = insert (statKey a b) (dom stats)"
  by (simp add: updateStats_def Let_def split: option.split)

text \<open>
  Claim C1: an update with operands \<open>a\<close>, \<open>b\<close> and the new score
  \<open>computeScore correct t\<close> sets the record at \<open>statKey a b\<close> to the new score with one
  attempt when the key had no record, and otherwise to 0.7 times the old confidence plus
  0.3 times the new score, with one attempt more. Two updates on a fresh key, with scores
  \<open>s1\<close> then \<open>s2\<close>, leave the confidence \<open>s1 * 0.7 + s2 * 0.3\<close> and two attempts.
\<close>

theorem updateStats_record:
  "(stats (statKey a b) = None \<longrightarrow>
      updateStats stats a b correct t (statKey a b) =
        Some \<lparr>confidence = computeScore correct t, attempts = 1\<rparr>)
   \<and> (\<forall>r. stats (statKey a b) = Some r \<longrightarrow>
        updateStats stats a b correct t (statKey a b) =
          Some \<lparr>confidence = confidence r * 0.7 + computeScore correct t * 0.3,
                attempts = attempts r + 1\<rparr>)
   \<and> (stats (statKey a b) = None \<longrightarrow>
        updateStats (updateStats stats a b c1 t1) a b c2 t2 (statKey a b) =
          Some \<lparr>confidence = computeScore c1 t1 * 0.7 + computeScore c2 t2 * 0.3,
                attempts = 2\<rparr>)"
  by (simp add: updateStats_at_key)

lemma record_ok_update:
  assumes "record_ok r"
  shows "record_ok \<lparr>confidence = confidence r * 0.7 + computeScore c t * 0.3,
                     attempts = attempts r + 1\<rparr>"
proof -
  have s: "0 \<le> computeScore c t" "computeScore c t \<le> 100"
    using computeScore_bounds [of c t] by simp_all
  from assms s show ?thesis
    by (simp add: record_ok_def) 
qed

lemma record_ok_fresh: "record_ok \<lparr>confidence = computeScore c t, attempts = 1\<rparr>"
  using computeScore_bounds [of c t] by (simp add: record_ok_def)

lemma table_ok_updateStats:
  assumes "table_ok stats"
  shows "table_ok (updateStats stats a b c t)"
  unfolding table_ok_def
proof (intro allI impI)
  fix k r
  assume h: "updateStats stats a b c t k = Some r"
  show "record_ok r"
  proof (cases "k = statKey a b")
    case True
    show ?thesis
    proof (cases "stats (statKey a b)")
      case None
      with h True show ?thesis
        using record_ok_fresh [of c t] by (auto simp: updateStats_at_key)
    next
      case (Some r0)
      then have "record_ok r0" using assms by (simp add: table_ok_def)
      with h True Some show ?thesis
        using record_ok_update [of r0 c t] by (auto simp: updateStats_at_key)
    qed
  next
    case False
    with h assms show ?thesis by (simp add: updateStats_other table_ok_def)
  qed
qed

lemma records_kept_updateStats: "records_kept stats (updateStats stats a b c t)"
  unfolding records_kept_def
proof (intro allI impI)
  fix k r
  assume h: "stats k = Some r"
  show "\<exists>r'. updateStats stats a b c t k = Some r' \<and> attempts r \<le> attempts r'"
  proof (cases "k = statKey a b")
    case True
    with h show ?thesis by (simp add: updateStats_at_key)
  next
    case False
    with h show ?thesis by (simp add: updateStats_other)
  qed
qed

lemma records_kept_refl: "records_kept s s"
  by (simp add: records_kept_def)

lemma records_kept_trans: "records_kept s t \<Longrightarrow> records_kept t u \<Longrightarrow> records_kept s u"
  unfolding records_kept_def by (meson order_trans)

lemma table_ok_seq: "table_ok stats \<Longrightarrow> table_ok (updateStats_seq stats ops)"
  by (induction stats ops rule: updateStats_seq.induct) (simp_all add: table_ok_updateStats)

lemma records_kept_seq: "records_kept stats (updateStats_seq stats ops)"
proof (induction stats ops rule: updateStats_seq.induct)
  case (1 stats)
  show ?case by (simp add: records_kept_refl)
next
  case (2 stats a b correct timeSec rest)
  then show ?case
    using records_kept_trans [OF records_kept_updateStats] by simp
qed

lemma updateStats_seq_append:
  "updateStats_seq stats (xs @ ys) = updateStats_seq (updateStats_seq stats xs) ys"
  by (induction stats xs rule: updateStats_seq.induct) simp_all

lemma take_split: "i \<le> j \<Longrightarrow> take j xs = take i xs @ drop i (take j xs)"
  by (metis append_take_drop_id min.absorb1 take_take)

text \<open>
  Claim C2: starting from a table whose records all have a confidence in \<open>[0, 100]\<close> and
  an integer number of attempts that is at least 1, every sequence of updates keeps it so;
  along the sequence no record is deleted and no record's number of attempts decreases
  (the table after \<open>i\<close> updates compared with the table after \<open>j \<ge> i\<close> updates).
\<close>

theorem updateStats_invariant:
  assumes "table_ok stats" and "i \<le> j"
  shows "table_ok (updateStats_seq stats (take j ops))
         \<and> records_kept (updateStats_seq stats (take i ops)) (updateStats_seq stats (take j ops))
         \<and> dom (updateStats_seq stats (take i ops)) \<subseteq> dom (updateStats_seq stats (take j ops))"
proof -
  have e: "updateStats_seq stats (take j ops) =
           updateStats_seq (updateStats_seq stats (take i ops)) (drop i (take j ops))"
    using take_split [OF assms(2), of ops] updateStats_seq_append by metis
  have k: "records_kept (updateStats_seq stats (take i ops)) (updateStats_seq stats (take j ops))"
    unfolding e by (rule records_kept_seq)
  then have d: "dom (updateStats_seq stats (take i ops)) \<subseteq> dom (updateStats_seq stats (take j ops))"
    unfolding records_kept_def by (auto simp: dom_def)
  show ?thesis using table_ok_seq [OF assms(1)] k d by simp
qed

theorem updateStats_invariant_witness:
  "table_ok sample_table \<and> (1::nat) \<le> 2
   \<and> table_ok (updateStats_seq sample_table (take 2 sample_answers))
   \<and> records_kept (updateStats_seq sample_table (take 1 sample_answers))
        (updateStats_seq sample_table (take 2 sample_answers))"
proof -
  have h: "table_ok sample_table"
    by (simp add: table_ok_def sample_table_def record_ok_def)
  have l: "(1::nat) \<le> 2" by simp
  show ?thesis using h updateStats_invariant [OF h l, of sample_answers] by simp
qed

theorem updateStats_record_witness:
  "Map.empty (statKey 3 7) = None
   \<and> updateStats Map.empty 3 7 True 1 (statKey 3 7) = Some \<lparr>confidence = 100, attempts = 1\<rparr>
   \<and> sample_table (statKey 3 7) = Some \<lparr>confidence = 50, attempts = 2\<rparr>
   \<and> updateStats sample_table 3 7 True 1 (statKey 3 7) = Some \<lparr>confidence = 65, attempts = 3\<rparr>
   \<and> updateStats (updateStats Map.empty 3 7 True 1) 3 7 False 9 (statKey 3 7) =
       Some \<lparr>confidence = 70, attempts = 2\<rparr>"
proof -
  have k: "statKey 3 7 = ''3_7''"
    by (simp add: statKey_def dec_def digits.simps digit_char_def)
  have s: "sample_table (statKey 3 7) = Some \<lparr>confidence = 50, attempts = 2\<rparr>"
    by (simp add: k sample_table_def)
  have c: "computeScore True 1 = 100" "computeScore False 9 = 0"
    by (simp_all add: computeScore_def)
  show ?thesis
    using updateStats_record [of Map.empty 3 7 True 1 True 1 False 9]
      updateStats_record [of sample_table 3 7 True 1 True 1 False 9] s c
    by simp
qed

text \<open>
  Claim C9: an update takes the whole table and gives the whole table back, with the one
  record at \<open>statKey a b\<close> created or modified: the keys are the old keys and
  \<open>statKey a b\<close>, and the record of every other key is unchanged.
\<close>

theorem updateStats_frame:
  "dom (updateStats stats a b correct t) = insert (statKey a b) (dom stats)
   \<and> (\<forall>k. k \<noteq> statKey a b \<longrightarrow> updateStats stats a b correct t k = stats k)"
  by (simp add: dom_updateStats updateStats_other)

theorem updateStats_frame_witness:
  "''3_7'' \<noteq> statKey 7 3
   \<and> updateStats sample_table 7 3 True 1 ''3_7'' = Some \<lparr>confidence = 50, attempts = 2\<rparr>
   \<and> dom (updateStats sample_table 7 3 True 1) = {''7_3'', ''3_7''}"
proof -
  have k: "statKey 7 3 = ''7_3''"
    by (simp add: statKey_def dec_def digits.simps digit_char_def)
  have n: "''3_7'' \<noteq> statKey 7 3" by (simp add: k)
  show ?thesis
    using updateStats_frame [of sample_table 7 3 True 1] n
    by (simp add: k sample_table_def)
qed

text \<open>
  Claim C8: the key depends on the order of the operands. For different \<open>a\<close> and \<open>b\<close>
  in \<open>[1, 12]\<close> the keys of \<open>(a, b)\<close> and \<open>(b, a)\<close> differ, an update of one leaves the
  record of the other unchanged, and the two updates on an empty table create two records.
\<close>

theorem statKey_order_sensitive:
  assumes "a \<in> {1..12}" and "b \<in> {1..12}" and "a \<noteq> b"
  shows "statKey a b \<noteq> statKey b a
         \<and> updateStats stats a b correct t (statKey b a) = stats (statKey b a)
         \<and> updateStats stats b a correct t (statKey a b) = stats (statKey a b)
         \<and> dom (updateStats (updateStats Map.empty a b c1 t1) b a c2 t2) = {statKey a b, statKey b a}
         \<and> card (dom (updateStats (updateStats Map.empty a b c1 t1) b a c2 t2)) = 2"
proof -
  have n: "statKey a b \<noteq> statKey b a" using assms(3) by (simp add: statKey_inj)
  then have n': "statKey b a \<noteq> statKey a b" by simp
  show ?thesis
    using n n' by (auto simp: updateStats_other dom_updateStats)
qed

theorem statKey_order_sensitive_witness:
  "(3::int) \<in> {1..12} \<and> (7::int) \<in> {1..12} \<and> (3::int) \<noteq> 7 \<and> statKey 3 7 \<noteq> statKey 7 3
   \<and> card (dom (updateStats (updateStats Map.empty 3 7 True 1) 7 3 True 1)) = 2"
proof -
  have h: "(3::int) \<in> {1..12}" "(7::int) \<in> {1..12}" "(3::int) \<noteq> 7" by simp_all
  show ?thesis
    using h statKey_order_sensitive [OF h, of Map.empty True 1 True 1 True 1] by simp
qed

text \<open>
  Claim C5, as the code has it: \<^verbatim>\<open>loadStats\<close> returns a value for every outcome of
  the storage read and of the parser. It returns the empty object when reading throws, when
  the entry is missing or empty, and when the text does not parse; otherwise it returns
  the parsed value as it is, whatever its shape.
\<close>

theorem loadStats_soft:
  "loadStats Throws JSON_parse = JObj []
   \<and> loadStats (Returns None) JSON_parse = JObj []
   \<and> loadStats (Returns (Some [])) JSON_parse = JObj []
   \<and> (JSON_parse raw = Throws \<longrightarrow> loadStats (Returns (Some raw)) JSON_parse = JObj [])
   \<and> (raw \<noteq> [] \<and> JSON_parse raw = Returns v \<longrightarrow> loadStats (Returns (Some raw)) JSON_parse = v)"
  by (simp add: loadStats_def)

theorem loadStats_soft_witness:
  "sample_parse ''{oops'' = Throws
   \<and> loadStats (Returns (Some ''{oops'')) sample_parse = JObj []
   \<and> ''null'' \<noteq> [] \<and> sample_parse ''null'' = Returns JNull
   \<and> loadStats (Returns (Some ''null'')) sample_parse = JNull"
proof -
  have a: "sample_parse ''{oops'' = Throws" by (simp add: sample_parse_def)
  have b: "sample_parse ''null'' = Returns JNull" by (simp add: sample_parse_def)
  show ?thesis
    using a b loadStats_soft [of sample_parse "''{oops''" JNull]
      loadStats_soft [of sample_parse "''null''" JNull]
    by simp
qed

text \<open>
  The stored text \<^verbatim>\<open>[1,2]\<close> parses, to an array: \<^verbatim>\<open>loadStats\<close> returns that array, which
  is not a statistics table and is not discarded in favour of the empty object.
\<close>

theorem loadStats_shape_counterexample:
  "loadStats (Returns (Some ''[1,2]'')) sample_parse = JArr [JNum 1, JNum 2]
   \<and> \<not> is_stats_table (loadStats (Returns (Some ''[1,2]'')) sample_parse)
   \<and> loadStats (Returns (Some ''[1,2]'')) sample_parse \<noteq> JObj []"
  by (simp add: loadStats_def sample_parse_def)

subsection \<open>Shuffling\<close>

lemma random_value_bounds: "0 \<le> random_value r \<and> random_value r < 1"
  using random_value [of r] by simp

lemma random_index_le: "nat \<lfloor>random_value r * real (i + 1)\<rfloor> \<le> i"
proof -
  have "random_value r * real (i + 1) < real (i + 1)"
    using random_value_bounds [of r] by (simp add: mult_less_cancel_right2 del: of_nat_Suc of_nat_add)
  then have "\<lfloor>random_value r * real (i + 1)\<rfloor> < int (i + 1)"
    by (simp add: floor_less_iff del: of_nat_Suc of_nat_add)
  then show ?thesis by linarith
qed

lemma random_12: "\<lfloor>random_value r * 12\<rfloor> + 1 \<in> {1..12}"
proof -
  have a: "0 \<le> random_value r * 12" "random_value r * 12 < 12"
    using random_value_bounds [of r] by simp_all
  have "0 \<le> \<lfloor>random_value r * 12\<rfloor>" using a(1) by simp
  moreover have "\<lfloor>random_value r * 12\<rfloor> < 12" using a(2) by (simp add: floor_less_iff)
  ultimately show ?thesis by simp
qed

lemma shuffle_loop_mset:
  "i < length arr \<or> i = 0 \<Longrightarrow> mset (fst (shuffle_loop rnd p i arr)) = mset arr"
proof (induction rnd p i arr rule: shuffle_loop.induct)
  case (1 rnd p i arr)
  show ?case
  proof (cases "i > 0")
    case True
    define j where "j = nat \<lfloor>random_value (rnd p) * real (i + 1)\<rfloor>"
    have ji: "j \<le> i" unfolding j_def by (rule random_index_le)
    from True 1(2) have il: "i < length arr" by simp
    with ji have jl: "j < length arr" by simp
    have sw: "mset (arr[i := arr ! j, j := arr ! i]) = mset arr"
      using il jl by (simp add: mset_swap)
    have "mset (fst (shuffle_loop rnd (p + 1) (i - 1) (arr[i := arr ! j, j := arr ! i])))
          = mset (arr[i := arr ! j, j := arr ! i])"
    proof (rule 1(1) [OF True j_def])
      show "i - 1 < length (arr[i := arr ! j, j := arr ! i]) \<or> i - 1 = 0"
        using il by auto
    qed
    with sw True show ?thesis
      by (simp add: shuffle_loop.simps [of rnd p i arr] j_def Let_def)
  next
    case False
    then show ?thesis by (simp add: shuffle_loop.simps [of rnd p 0 arr])
  qed
qed

lemma shuffle_mset: "mset (fst (shuffle rnd p arr)) = mset arr"
  unfolding shuffle_def
  by (rule shuffle_loop_mset) (cases arr; simp)

lemma shuffle_length: "length (fst (shuffle rnd p arr)) = length arr"
  using shuffle_mset [of rnd p arr] by (metis size_mset)

lemma shuffle_set: "set (fst (shuffle rnd p arr)) = set arr"
  using shuffle_mset [of rnd p arr] by (metis set_mset_mset)

text \<open>A run of the loop on four elements, with the indices 1, 2 and 0 drawn.\<close>

lemma sample_value: "random_value (sample_rnd k) = real ((5 * k + 3) mod 11) / 11"
  by (simp add: sample_rnd_def random_of.rep_eq)

lemma shuffle_example: "shuffle sample_rnd 0 [10, 20, 30, 40 :: int] = ([40, 10, 30, 20], 3)"
  apply (simp add: shuffle_def)
  apply (subst shuffle_loop.simps, simp add: sample_value)
  apply (subst shuffle_loop.simps, simp add: sample_value)
  apply (subst shuffle_loop.simps, simp add: sample_value)
  apply (subst shuffle_loop.simps, simp add: sample_value)
  done

text \<open>
  Claim C10: for every input array and every sequence of random numbers, each of which
  gives an index \<open>j\<close> with \<open>0 \<le> j \<le> i\<close> at its step, \<^verbatim>\<open>shuffle\<close> returns a permutation
  of its input: the same elements with the same multiplicities, hence the same length.
  The last conjunct is the range of the index that the \<open>k\<close>-th random number gives at
  step \<open>i\<close>.
\<close>

theorem shuffle_permutation:
  "mset (fst (shuffle rnd p arr)) = mset arr
   \<and> length (fst (shuffle rnd p arr)) = length arr
   \<and> nat \<lfloor>random_value (rnd k) * real (i + 1)\<rfloor> \<le> i"
  using shuffle_mset [of rnd p arr] shuffle_length [of rnd p arr] random_index_le [of "rnd k" i]
  by simp

subsection \<open>Generating questions\<close>

lemma mixed_loop_length:
  "length qs \<le> TOTAL_QUESTIONS \<Longrightarrow> length (fst (mixed_loop rnd p qs)) = TOTAL_QUESTIONS"
proof (induction rnd p qs rule: mixed_loop.induct)
  case (1 rnd p qs)
  show ?case
  proof (cases "length qs < TOTAL_QUESTIONS")
    case True
    then show ?thesis
      using 1(1) [OF True refl refl] by (simp add: mixed_loop.simps [of rnd p qs] Let_def)
  next
    case False
    with 1(2) show ?thesis by (simp add: mixed_loop.simps [of rnd p qs])
  qed
qed

lemma mixed_loop_range:
  "list_all in_range qs \<Longrightarrow> list_all in_range (fst (mixed_loop rnd p qs))"
proof (induction rnd p qs rule: mixed_loop.induct)
  case (1 rnd p qs)
  show ?case
  proof (cases "length qs < TOTAL_QUESTIONS")
    case True
    have "in_range (\<lfloor>random_value (rnd p) * 12\<rfloor> + 1, \<lfloor>random_value (rnd (p + 1)) * 12\<rfloor> + 1)"
      unfolding in_range_def fst_conv snd_conv using random_12 by blast
    with 1(2) have "list_all in_range (qs @ [(\<lfloor>random_value (rnd p) * 12\<rfloor> + 1, \<lfloor>random_value (rnd (p + 1)) * 12\<rfloor> + 1)])"
      by simp
    then show ?thesis
      using 1(1) [OF True refl refl] True by (simp add: mixed_loop.simps [of rnd p qs] Let_def)
  next
    case False
    with 1(2) show ?thesis by (simp add: mixed_loop.simps [of rnd p qs])
  qed
qed

lemma cyclic_fill:
  assumes "length pool = 12"
  shows "map (\<lambda>i. pool ! (i mod length pool)) [0..<TOTAL_QUESTIONS] = pool @ take 3 pool"
proof (rule nth_equalityI)
  show "length (map (\<lambda>i. pool ! (i mod length pool)) [0..<TOTAL_QUESTIONS]) = length (pool @ take 3 pool)"
    using assms by (simp add: TOTAL_QUESTIONS_def)
next
  fix i
  assume "i < length (map (\<lambda>i. pool ! (i mod length pool)) [0..<TOTAL_QUESTIONS])"
  then have i: "i < 15" by (simp add: TOTAL_QUESTIONS_def)
  show "map (\<lambda>i. pool ! (i mod length pool)) [0..<TOTAL_QUESTIONS] ! i = (pool @ take 3 pool) ! i"
  proof (cases "i < 12")
    case True
    with i assms show ?thesis by (simp add: TOTAL_QUESTIONS_def nth_append)
  next
    case False
    with i have m: "i mod 12 = i - 12" by (simp add: mod_if)
    from False i assms show ?thesis by (simp add: TOTAL_QUESTIONS_def nth_append m)
  qed
qed

lemma table_pool_length: "length (table_pool n) = 12"
  by (simp add: table_pool_def)

lemma table_pool_set: "set (table_pool n) = (\<lambda>k. (n, k)) ` {1..12}"
  by (simp add: table_pool_def)

lemma question_pairs_table:
  "\<exists>pool. mset pool = mset (table_pool n) \<and>
      mset (fst (question_pairs rnd (Table n))) = mset pool + mset (take 3 pool)"
proof -
  obtain pool p where sp: "shuffle rnd 0 (table_pool n) = (pool, p)" by (cases "shuffle rnd 0 (table_pool n)")
  have m: "mset pool = mset (table_pool n)" using shuffle_mset [of rnd 0 "table_pool n"] sp by simp
  then have l: "length pool = 12" using table_pool_length by (metis size_mset)
  have "mset (fst (question_pairs rnd (Table n))) = mset (pool @ take 3 pool)"
    by (simp add: question_pairs_def sp cyclic_fill [OF l] shuffle_mset)
  with m show ?thesis by auto
qed

lemma display_swap_shows: "list_all2 shows_entry (display_swap rnd p qs) qs"
  by (induction qs arbitrary: p) (auto simp: shows_entry_def)

lemma display_swap_length: "length (display_swap rnd p qs) = length qs"
  by (induction qs arbitrary: p) auto

lemma shows_entry_fact: "shows_entry q e \<Longrightarrow> fact_of q = unordered e"
  by (auto simp: shows_entry_def fact_of_def unordered_def)

lemma display_swap_facts: "map fact_of (display_swap rnd p qs) = map unordered qs"
  by (induction qs arbitrary: p) (auto simp: fact_of_def unordered_def)

lemma list_all2_set1: "list_all2 P xs ys \<Longrightarrow> x \<in> set xs \<Longrightarrow> \<exists>y\<in>set ys. P x y"
  by (induction rule: list_all2_induct) auto

lemma question_pairs_length: "length (fst (question_pairs rnd table)) = TOTAL_QUESTIONS"
proof (cases table)
  case Mixed
  then show ?thesis using mixed_loop_length [of "[]" rnd 0] by (simp add: question_pairs_def)
next
  case (Table n)
  obtain pool p where sp: "shuffle rnd 0 (table_pool n) = (pool, p)"
    by (cases "shuffle rnd 0 (table_pool n)")
  show ?thesis by (simp add: Table question_pairs_def sp shuffle_length)
qed

lemma table_pool_range: "1 \<le> n \<Longrightarrow> n \<le> 12 \<Longrightarrow> e \<in> set (table_pool n) \<Longrightarrow> in_range e"
  by (auto simp: table_pool_set in_range_def)

lemma question_pairs_range:
  assumes "valid_mode table" and "e \<in> set (fst (question_pairs rnd table))"
  shows "in_range e"
proof (cases table)
  case Mixed
  have "list_all in_range (fst (mixed_loop rnd 0 []))" by (rule mixed_loop_range) simp
  with assms(2) Mixed show ?thesis by (simp add: question_pairs_def list_all_iff)
next
  case (Table n)
  obtain pool where m: "mset pool = mset (table_pool n)"
    and q: "mset (fst (question_pairs rnd (Table n))) = mset pool + mset (take 3 pool)"
    using question_pairs_table [of n rnd] by blast
  have "set (fst (question_pairs rnd (Table n))) = set pool \<union> set (take 3 pool)"
    using q by (metis set_mset_mset set_mset_union)
  moreover have "set pool = set (table_pool n)" using m by (metis set_mset_mset)
  ultimately have "e \<in> set (table_pool n)"
    using assms(2) Table set_take_subset [of 3 pool] by auto
  with assms(1) Table show ?thesis using table_pool_range [of n e] by simp
qed

lemma shows_entry_range:
  "in_range e \<Longrightarrow> shows_entry q e \<Longrightarrow> q_a q \<in> {1..12} \<and> q_b q \<in> {1..12} \<and> answer q = q_a q * q_b q"
  by (cases e) (auto simp: in_range_def shows_entry_def)

lemma generateQuestions_display:
  "generateQuestions rnd table =
     display_swap rnd (snd (question_pairs rnd table)) (fst (question_pairs rnd table))"
  by (simp add: generateQuestions_def split_beta)

text \<open>
  Claim C6: for every valid mode and every sequence of random numbers,
  \<^verbatim>\<open>generateQuestions\<close> returns 15 questions, each with both operands in \<open>[1, 12]\<close> and
  \<open>answer = a * b\<close> on the displayed operands; question by question, the answer is the
  product of the operands of the entry before the swap, and the displayed operands are
  those of the entry in one order or the other.
\<close>

theorem generateQuestions_contract:
  assumes "valid_mode table"
  shows "length (generateQuestions rnd table) = 15
         \<and> (\<forall>q \<in> set (generateQuestions rnd table).
               q_a q \<in> {1..12} \<and> q_b q \<in> {1..12} \<and> answer q = q_a q * q_b q)
         \<and> list_all2 shows_entry (generateQuestions rnd table) (fst (question_pairs rnd table))"
proof -
  have l: "length (generateQuestions rnd table) = 15"
    using question_pairs_length [of rnd table]
    by (simp add: generateQuestions_display display_swap_length TOTAL_QUESTIONS_def)
  have s: "list_all2 shows_entry (generateQuestions rnd table) (fst (question_pairs rnd table))"
    unfolding generateQuestions_display by (rule display_swap_shows)
  have r: "\<forall>q \<in> set (generateQuestions rnd table).
             q_a q \<in> {1..12} \<and> q_b q \<in> {1..12} \<and> answer q = q_a q * q_b q"
  proof
    fix q
    assume "q \<in> set (generateQuestions rnd table)"
    then obtain e where e: "e \<in> set (fst (question_pairs rnd table))" "shows_entry q e"
      using list_all2_set1 [OF s] by blast
    have "in_range e" using assms e(1) by (rule question_pairs_range)
    then show "q_a q \<in> {1..12} \<and> q_b q \<in> {1..12} \<and> answer q = q_a q * q_b q"
      using e(2) by (rule shows_entry_range)
  qed
  from l r s show ?thesis by simp
qed

theorem generateQuestions_contract_witness:
  "valid_mode (Table 7) \<and> length (generateQuestions sample_rnd (Table 7)) = 15
   \<and> valid_mode Mixed \<and> length (generateQuestions sample_rnd Mixed) = 15
   \<and> list_all2 shows_entry (generateQuestions sample_rnd Mixed) (fst (question_pairs sample_rnd Mixed))"
proof -
  have a: "valid_mode (Table 7)" by simp
  have b: "valid_mode Mixed" by simp
  show ?thesis
    using a b generateQuestions_contract [OF a, of sample_rnd]
      generateQuestions_contract [OF b, of sample_rnd]
    by simp
qed

text \<open>
  Claim C7: for a table \<open>n\<close> (any integer, those of \<open>[1, 12]\<close> among them) and every
  sequence of random numbers, the 15 questions, taken as a multiset of facts without
  the order of the operands, contain each of the 12 facts \<open>(n, 1)\<close> to \<open>(n, 12)\<close> at least
  once: they are the facts of a permutation of the pool together with the facts of its
  first three entries.
\<close>

theorem generateQuestions_table_coverage:
  "(\<forall>k\<in>{1..12}. unordered (n, k) \<in># image_mset fact_of (mset (generateQuestions rnd (Table n))))
   \<and> size (image_mset fact_of (mset (generateQuestions rnd (Table n)))) = 15
   \<and> (\<exists>pool. mset pool = mset (table_pool n)
         \<and> image_mset fact_of (mset (generateQuestions rnd (Table n))) =
             image_mset unordered (mset pool) + image_mset unordered (mset (take 3 pool)))"
proof -
  obtain pool where m: "mset pool = mset (table_pool n)"
    and q: "mset (fst (question_pairs rnd (Table n))) = mset pool + mset (take 3 pool)"
    using question_pairs_table [of n rnd] by blast
  have "image_mset fact_of (mset (generateQuestions rnd (Table n)))
        = mset (map unordered (fst (question_pairs rnd (Table n))))"
    unfolding generateQuestions_display by (simp add: display_swap_facts flip: mset_map)
  then have f: "image_mset fact_of (mset (generateQuestions rnd (Table n)))
        = image_mset unordered (mset pool) + image_mset unordered (mset (take 3 pool))"
    using q by simp
  have c: "\<forall>k\<in>{1..12}. unordered (n, k) \<in># image_mset fact_of (mset (generateQuestions rnd (Table n)))"
  proof
    fix k :: int
    assume "k \<in> {1..12}"
    then have "(n, k) \<in> set (table_pool n)" by (simp add: table_pool_set)
    then have "(n, k) \<in># mset pool" using m by simp
    then show "unordered (n, k) \<in># image_mset fact_of (mset (generateQuestions rnd (Table n)))"
      unfolding f by simp
  qed
  have s: "size (image_mset fact_of (mset (generateQuestions rnd (Table n)))) = 15"
    using question_pairs_length [of rnd "Table n"]
    by (simp add: generateQuestions_display display_swap_length TOTAL_QUESTIONS_def)
  from c s f m show ?thesis by blast
qed

theorem generateQuestions_table_coverage_witness:
  "(3::int) \<in> {1..12}
   \<and> unordered (7, 3) \<in># image_mset fact_of (mset (generateQuestions sample_rnd (Table 7)))
   \<and> unordered (7, 3) = (3, 7)"
proof -
  have k: "(3::int) \<in> {1..12}" by simp
  have "unordered (7, 3) \<in># image_mset fact_of (mset (generateQuestions sample_rnd (Table 7)))"
    using generateQuestions_table_coverage [of 7 sample_rnd, THEN conjunct1] k by (rule bspec)
  with k show ?thesis by (simp add: unordered_def)
qed

end
